theory Spec2Isabelle
  imports Main "HOL-Library.Word"
begin

section \<open>Bytes, words and the host byte order\<close>

text \<open>
  \<^verbatim>\<open>reader.cpp\<close> moves data between the stream and typed buffers with
  \<^verbatim>\<open>reinterpret_cast<char*>\<close>: a \<^verbatim>\<open>uint32_t\<close> is four bytes, a
  \<^verbatim>\<open>uint16_t\<close> two and a \<^verbatim>\<open>uint64_t\<close> eight, in the byte order of the host.
  The byte order is a parameter of the model.
\<close>

type_synonym byte = "8 word"
type_synonym uint16 = "16 word"
type_synonym uint32 = "32 word"
type_synonym uint64 = "64 word"

datatype endian = LittleEndian | BigEndian

definition bytes_of_word :: "nat \<Rightarrow> 'a::len word \<Rightarrow> byte list" where
  \<comment> \<open>the \<open>n\<close> low bytes of a word, least significant first\<close>
  "bytes_of_word n w = map (\<lambda>i. ucast (drop_bit (8 * i) w)) [0..<n]"

definition word_of_bytes :: "byte list \<Rightarrow> 'a::len word" where
  \<comment> \<open>the word whose bytes are \<open>bs\<close>, least significant first\<close>
  "word_of_bytes bs = horner_sum ucast 256 bs"

definition to_bytes :: "endian \<Rightarrow> nat \<Rightarrow> 'a::len word \<Rightarrow> byte list" where
  "to_bytes e n w =
     (case e of LittleEndian \<Rightarrow> bytes_of_word n w | BigEndian \<Rightarrow> rev (bytes_of_word n w))"

definition from_bytes :: "endian \<Rightarrow> byte list \<Rightarrow> 'a::len word" where
  "from_bytes e bs =
     (case e of LittleEndian \<Rightarrow> word_of_bytes bs | BigEndian \<Rightarrow> word_of_bytes (rev bs))"

text \<open>A byte buffer seen as an array of \<^verbatim>\<open>uint32_t\<close>, of \<^verbatim>\<open>uint16_t\<close>.\<close>

fun words32 :: "endian \<Rightarrow> byte list \<Rightarrow> uint32 list" where
  "words32 e (a # b # c # d # bs) = from_bytes e [a, b, c, d] # words32 e bs"
| "words32 e bs = []"

fun words16 :: "endian \<Rightarrow> byte list \<Rightarrow> uint16 list" where
  "words16 e (a # b # bs) = from_bytes e [a, b] # words16 e bs"
| "words16 e bs = []"

text \<open>An array of \<^verbatim>\<open>uint64_t\<close> seen as bytes.\<close>

definition bytes64 :: "endian \<Rightarrow> uint64 list \<Rightarrow> byte list" where
  "bytes64 e ws = concat (map (to_bytes e 8) ws)"


section \<open>The data model\<close>

text \<open>
  Modelled from the spec: the declarations of \<^verbatim>\<open>Header\<close>, \<^verbatim>\<open>Block\<close> and
  \<^verbatim>\<open>STEMValues\<close>, which are in headers that are not part of the sources at hand. The
  fields are the ones that \<^verbatim>\<open>reader.cpp\<close> reads and writes, with the types of the data
  model: \<^verbatim>\<open>uint32\<close> for the header fields and the image numbers, 16-bit samples,
  \<^verbatim>\<open>uint64\<close> for the bright and the dark value. The pixel buffer of a block is the
  list of its samples.
\<close>

record Header =
  imagesInBlock :: uint32
  rows :: uint32
  columns :: uint32
  version :: uint32
  timestamp :: uint32
  imageNumbers :: "uint32 list"

record Block =
  header :: Header
  data :: "uint16 list"

record STEMValues =
  imageNumber :: uint32
  bright :: uint64
  dark :: uint64

definition Block_default :: Block where
  \<comment> \<open>Modelled from the spec: the default constructor \<^verbatim>\<open>Block()\<close> of the absent
      \<^verbatim>\<open>reader.h\<close>, "a sentinel Block carrying a zero-valued (version == 0) header",
      with no pixel buffer.\<close>
  "Block_default =
     \<lparr>header = \<lparr>imagesInBlock = 0, rows = 0, columns = 0, version = 0, timestamp = 0,
                 imageNumbers = []\<rparr>,
      data = []\<rparr>"

text \<open>
  Exceptions are values. \<open>out_of_bounds\<close> and \<open>bad_array_size\<close> are not C++ exceptions:
  they mark the places where the program leaves an array or declares an array without a
  positive size, so that the behaviour of the C++ program is undefined. \<open>bad_pool_size\<close>
  is the failure to build the thread pool, and \<open>never_returns\<close> marks a call that blocks
  for ever.
\<close>

datatype error =
    EofException
  | invalid_argument string
  | out_of_bounds
  | bad_array_size
  | bad_pool_size
  | never_returns


section \<open>The record codec\<close>

text \<open>
  The input stream \<^verbatim>\<open>m_stream\<close> is the list of the bytes not yet consumed. The
  stream is in its good state whenever \<^verbatim>\<open>read\<close> is entered: the constructor throws
  unless the file is open, and every failing read leaves \<^verbatim>\<open>process\<close> by an exception.
\<close>

type_synonym istream = "byte list"

definition peek :: "istream \<Rightarrow> byte option" where
  \<comment> \<open>\<^verbatim>\<open>m_stream.peek()\<close>; \<open>None\<close> is \<^verbatim>\<open>EOF\<close>. Nothing is consumed.\<close>
  "peek s = (case s of [] \<Rightarrow> None | c # _ \<Rightarrow> Some c)"

definition read_bytes :: "nat \<Rightarrow> istream \<Rightarrow> error + (byte list \<times> istream)" where
  \<comment> \<open>\<^verbatim>\<open>StreamReader::read(T* value, streamsize size)\<close>: \<^verbatim>\<open>istream::read\<close> sets
      \<^verbatim>\<open>eofbit\<close> exactly when fewer than \<open>sz\<close> bytes are left; then
      \<^verbatim>\<open>EofException\<close> is thrown.\<close>
  "read_bytes sz s =
     (if length s < sz then Inl EofException else Inr (take sz s, drop sz s))"

definition readHeader :: "endian \<Rightarrow> istream \<Rightarrow> error + (Header \<times> istream)" where
  \<comment> \<open>The copy of the image numbers reads \<^verbatim>\<open>headerData[index .. index + imagesInBlock)\<close>;
      beyond the 1024 words of \<^verbatim>\<open>headerData\<close> it leaves the array.\<close>
  "readHeader e s =
     (case read_bytes (1024 * 4) s of
        Inl err \<Rightarrow> Inl err
      | Inr (raw, s') \<Rightarrow>
          (let headerData = words32 e raw;
               n = headerData ! 0;
               index = 5 + 5
           in if index + unat n \<le> 1024
              then Inr (\<lparr>imagesInBlock = n,
                         rows = headerData ! 1,
                         columns = headerData ! 2,
                         version = headerData ! 3,
                         timestamp = headerData ! 4,
                         imageNumbers = take (unat n) (drop index headerData)\<rparr>, s')
              else Inl out_of_bounds))"

definition read_try :: "endian \<Rightarrow> istream \<Rightarrow> error + (Block \<times> istream)" where
  \<comment> \<open>The \<^verbatim>\<open>try\<close> block of \<^verbatim>\<open>StreamReader::read()\<close>. \<^verbatim>\<open>dataSize\<close> is a product
      of \<^verbatim>\<open>uint32_t\<close> values and wraps around; the byte count
      \<^verbatim>\<open>dataSize*sizeof(uint16_t)\<close> is computed in \<^verbatim>\<open>size_t\<close>.\<close>
  "read_try e s =
     (case readHeader e s of
        Inl err \<Rightarrow> Inl err
      | Inr (h, s1) \<Rightarrow>
          (let dataSize = rows h * columns h * imagesInBlock h
           in case read_bytes (unat dataSize * 2) s1 of
                Inl err \<Rightarrow> Inl err
              | Inr (raw, s2) \<Rightarrow> Inr (\<lparr>header = h, data = words16 e raw\<rparr>, s2)))"

definition read :: "endian \<Rightarrow> istream \<Rightarrow> error + (Block \<times> istream)" where
  \<comment> \<open>\<^verbatim>\<open>StreamReader::read()\<close>: peek, then the \<^verbatim>\<open>try\<close> block with its handler.\<close>
  "read e s =
     (case peek s of
        Some c \<Rightarrow>
          (case read_try e s of
             Inl EofException \<Rightarrow> Inl (invalid_argument ''Unexpected EOF while processing stream.'')
           | Inl err \<Rightarrow> Inl err
           | Inr r \<Rightarrow> Inr r)
      | None \<Rightarrow> Inr (Block_default, s))"


section \<open>The pipeline\<close>

text \<open>
  The collaborators of \<^verbatim>\<open>process\<close> that live outside \<^verbatim>\<open>reader.cpp\<close> are
  parameters: \<^verbatim>\<open>createAnnularMask\<close> (rows, columns, inner radius, outer radius) allocates
  and returns a mask, \<^verbatim>\<open>calculateSTEMValues\<close> reduces one image of a pixel buffer under
  the two masks, \<^verbatim>\<open>std::thread::hardware_concurrency()\<close> is a number. A mask pointer is a
  \<open>'m option\<close>, \<open>None\<close> being \<^verbatim>\<open>nullptr\<close>.
\<close>

record 'm env =
  host_endian :: endian
  hardware_concurrency :: nat
  createAnnularMask :: "uint32 \<Rightarrow> uint32 \<Rightarrow> int \<Rightarrow> int \<Rightarrow> 'm"
  calculateSTEMValues ::
    "uint16 list \<Rightarrow> uint32 \<Rightarrow> uint32 \<Rightarrow> 'm option \<Rightarrow> 'm option \<Rightarrow> uint32 \<Rightarrow> STEMValues"

text \<open>
  The calls that \<^verbatim>\<open>process\<close> makes to its collaborators, in program order: the
  construction of the pool, each construction of a mask with its four arguments, and each
  task handed to \<^verbatim>\<open>pool.enqueue\<close> with the block and the two mask pointers it captures.
\<close>

datatype 'm event =
    NewThreadPool int
  | CreateAnnularMask uint32 uint32 int int
  | Enqueue Block "'m option" "'m option"

text \<open>
  The state of the reading loop. \<open>results\<close> holds, in submission order, the value that each
  future yields on \<^verbatim>\<open>get()\<close>, which is the value its task returns.
\<close>

record 'm loop_state =
  brightFieldMask :: "'m option"
  darkFieldMask :: "'m option"
  results :: "STEMValues list list"
  trace :: "'m event list"

definition compute_task ::
  "'m env \<Rightarrow> Block \<Rightarrow> 'm option \<Rightarrow> 'm option \<Rightarrow> STEMValues list" where
  \<comment> \<open>The body of the lambda given to \<^verbatim>\<open>pool.enqueue\<close>. The products are
      \<^verbatim>\<open>uint32_t\<close> products.\<close>
  "compute_task env b bm dm =
     map (\<lambda>i. let imageNumber = imageNumbers (header b) ! i;
                   numberOfPixels = rows (header b) * columns (header b)
               in calculateSTEMValues env (data b) (of_nat i * numberOfPixels) numberOfPixels
                    bm dm imageNumber)
         [0..<unat (imagesInBlock (header b))]"

definition make_bright :: "'m env \<Rightarrow> Block \<Rightarrow> 'm loop_state \<Rightarrow> 'm loop_state" where
  \<comment> \<open>lines 129 to 131; the statement is \<^verbatim>\<open>40, brightFieldMask = createAnnularMask(...)\<close>,
      a comma expression whose left operand is discarded\<close>
  "make_bright env b st =
     (if brightFieldMask st = None
      then st\<lparr>brightFieldMask :=
                  Some (createAnnularMask env (rows (header b)) (columns (header b)) 0 288),
              trace := trace st @ [CreateAnnularMask (rows (header b)) (columns (header b)) 0 288]\<rparr>
      else st)"

definition make_dark :: "'m env \<Rightarrow> Block \<Rightarrow> 'm loop_state \<Rightarrow> 'm loop_state" where
  \<comment> \<open>lines 133 to 135\<close>
  "make_dark env b st =
     (if darkFieldMask st = None
      then st\<lparr>darkFieldMask :=
                  Some (createAnnularMask env (rows (header b)) (columns (header b)) 40 288),
              trace := trace st @ [CreateAnnularMask (rows (header b)) (columns (header b)) 40 288]\<rparr>
      else st)"

definition enqueue :: "'m env \<Rightarrow> Block \<Rightarrow> 'm loop_state \<Rightarrow> 'm loop_state" where
  \<comment> \<open>lines 137 to 148\<close>
  "enqueue env b st =
     st\<lparr>results := results st @ [compute_task env b (brightFieldMask st) (darkFieldMask st)],
        trace := trace st @ [Enqueue b (brightFieldMask st) (darkFieldMask st)]\<rparr>"

definition loop_body :: "'m env \<Rightarrow> Block \<Rightarrow> 'm loop_state \<Rightarrow> 'm loop_state" where
  "loop_body env b st = enqueue env b (make_dark env b (make_bright env b st))"

text \<open>
  The loop of \<^verbatim>\<open>process\<close>. It is left by \<^verbatim>\<open>break\<close> with the rest of the stream, or
  by the exception of \<^verbatim>\<open>read\<close>; the calls made until then have been made in both
  cases, so the state at the exit is returned in both.
\<close>

function process_loop ::
  "'m env \<Rightarrow> 'm loop_state \<Rightarrow> istream \<Rightarrow> 'm loop_state \<times> (error + istream)" where
  "process_loop env st s =
     (case read (host_endian env) s of
        Inl err \<Rightarrow> (st, Inl err)
      | Inr (b, s') \<Rightarrow>
          if version (header b) = 0 then (st, Inr s')
          else process_loop env (loop_body env b st) s')"
  by pat_completeness auto
termination
proof (relation "measure (\<lambda>(env, st, s). length s)")
  show "wf (measure (\<lambda>(env :: 'm env, st :: 'm loop_state, s :: istream). length s))"
    by simp
next
  fix env :: "'m env" and st :: "'m loop_state" and s :: istream and x2 b s'
  assume r: "read (host_endian env) s = Inr x2" and x: "(b, s') = x2"
    and v: "version (header b) \<noteq> 0"
  from r x v have "s \<noteq> []"
    by (auto simp: read_def peek_def Block_default_def)
  moreover from r x have "s \<noteq> [] \<Longrightarrow> length s' + 4096 \<le> length s"
    by (auto simp: read_def peek_def read_try_def readHeader_def read_bytes_def Let_def
             split: list.splits sum.splits if_splits error.splits)
  ultimately show "((env, loop_body env b st, s'), (env, st, s)) \<in> measure (\<lambda>(env, st, s). length s)"
    by simp
qed

declare process_loop.simps [simp del]


section \<open>The aggregator\<close>

text \<open>
  \<^verbatim>\<open>brightPixels\<close> and \<^verbatim>\<open>darkPixels\<close> are arrays of \<^verbatim>\<open>numberOfPixels\<close> elements.
  The index \<^verbatim>\<open>value.imageNumber-1\<close> is a \<^verbatim>\<open>uint32_t\<close>; the source does not compare it
  with the length, and a write outside the arrays is \<open>out_of_bounds\<close>.
\<close>

fun write_values ::
  "STEMValues list \<Rightarrow> uint64 list \<times> uint64 list \<Rightarrow> error + (uint64 list \<times> uint64 list)" where
  "write_values [] px = Inr px"
| "write_values (v # vs) (brightPixels, darkPixels) =
     (let k = unat (imageNumber v - 1)
      in if k < length brightPixels \<and> k < length darkPixels
         then write_values vs (brightPixels[k := bright v], darkPixels[k := dark v])
         else Inl out_of_bounds)"

fun drain ::
  "STEMValues list list \<Rightarrow> uint64 list \<times> uint64 list \<Rightarrow> error + (uint64 list \<times> uint64 list)" where
  "drain [] px = Inr px"
| "drain (valuesInBlock # rest) px =
     (case write_values valuesInBlock px of
        Inl err \<Rightarrow> Inl err
      | Inr px' \<Rightarrow> drain rest px')"

definition aggregate ::
  "int \<Rightarrow> int \<Rightarrow> STEMValues list list \<Rightarrow> error + (uint64 list \<times> uint64 list)" where
  \<comment> \<open>lines 151 to 160. \<^verbatim>\<open>numberOfPixels\<close> is an \<^verbatim>\<open>int\<close> and the length of two
      arrays with an initialiser, so it has to be positive and below \<open>2 ^ 31\<close>.\<close>
  "aggregate width height res =
     (let numberOfPixels = width * height
      in if numberOfPixels \<le> 0 \<or> 2 ^ 31 \<le> numberOfPixels then Inl bad_array_size
         else drain res (replicate (nat numberOfPixels) 0, replicate (nat numberOfPixels) 0))"


section \<open>The file sink\<close>

text \<open>
  An output string stream with the two formatting fields that the source sets. A field
  width holds for the next insertion only; the fill character stays.
\<close>

record ostringstream =
  str :: string
  os_width :: nat
  os_fill :: char

definition ostringstream_init :: ostringstream where
  "ostringstream_init = \<lparr>str = [], os_width = 0, os_fill = CHR '' ''\<rparr>"

definition insert_text :: "string \<Rightarrow> ostringstream \<Rightarrow> ostringstream" where
  \<comment> \<open>right-adjusted by default: the padding goes in front\<close>
  "insert_text t os =
     os\<lparr>str := str os @ replicate (os_width os - length t) (os_fill os) @ t, os_width := 0\<rparr>"

definition setw :: "nat \<Rightarrow> ostringstream \<Rightarrow> ostringstream" where
  "setw n os = os\<lparr>os_width := n\<rparr>"

definition setfill :: "char \<Rightarrow> ostringstream \<Rightarrow> ostringstream" where
  "setfill c os = os\<lparr>os_fill := c\<rparr>"

function dec_nat :: "nat \<Rightarrow> string" where
  "dec_nat n =
     (if n < 10 then [''0123456789'' ! n] else dec_nat (n div 10) @ [''0123456789'' ! (n mod 10)])"
  by pat_completeness auto
termination
  by (relation "measure (\<lambda>n. n)") auto

declare dec_nat.simps [simp del]

definition dec_int :: "int \<Rightarrow> string" where
  "dec_int i = (if i < 0 then CHR ''-'' # dec_nat (nat (- i)) else dec_nat (nat i))"

definition insert_int :: "int \<Rightarrow> ostringstream \<Rightarrow> ostringstream" where
  "insert_int i os = insert_text (dec_int i) os"

definition brightFilename :: "int \<Rightarrow> int \<Rightarrow> string" where
  "brightFilename streamId imageId =
     str (insert_text ''.bin''
         (insert_int imageId (setfill CHR ''0'' (setw 3
         (insert_text ''.''
         (insert_int streamId (setfill CHR ''0'' (setw 3
         (insert_text ''bright-'' ostringstream_init)))))))))"

definition darkFilename :: "int \<Rightarrow> int \<Rightarrow> string" where
  "darkFilename streamId imageId =
     str (insert_text ''.bin''
         (insert_int imageId (setfill CHR ''0'' (setw 3
         (insert_text ''.''
         (insert_int streamId (setfill CHR ''0'' (setw 3
         (insert_text ''dark-'' ostringstream_init)))))))))"

text \<open>
  The file system maps a name to the content of the file. Opening an \<^verbatim>\<open>ofstream\<close>
  creates or truncates the file; \<^verbatim>\<open>write\<close> appends to it. Both are taken to succeed.
\<close>

type_synonym filesystem = "string \<rightharpoonup> byte list"

definition ofstream_open :: "string \<Rightarrow> filesystem \<Rightarrow> filesystem" where
  "ofstream_open name fs = fs(name \<mapsto> [])"

definition ofstream_write :: "string \<Rightarrow> byte list \<Rightarrow> filesystem \<Rightarrow> filesystem" where
  "ofstream_write name bs fs =
     fs(name \<mapsto> (case fs name of None \<Rightarrow> [] | Some old \<Rightarrow> old) @ bs)"

text \<open>
  \<^verbatim>\<open>StreamReader::process\<close>, built without \<^verbatim>\<open>SocketIOClientCpp\<close>. The result is the
  trace of the calls to the collaborators with what ended the run (an exception, an access
  outside an array, a call that does not return), or with the file system after the two
  writes.
\<close>

definition init_state :: "int \<Rightarrow> 'm loop_state" where
  \<comment> \<open>lines 116 to 120: the pool, two null mask pointers, no results\<close>
  "init_state threads =
     \<lparr>brightFieldMask = None, darkFieldMask = None, results = [],
      trace = [NewThreadPool threads]\<rparr>"

definition write_images ::
  "endian \<Rightarrow> int \<Rightarrow> int \<Rightarrow> uint64 list \<Rightarrow> uint64 list \<Rightarrow> filesystem \<Rightarrow> filesystem" where
  \<comment> \<open>lines 162 and 179 to 188\<close>
  "write_images e streamId numberOfPixels brightPixels darkPixels fs =
     (let imageId = 1;
          fs1 = ofstream_open (brightFilename streamId imageId) fs;
          fs2 = ofstream_open (darkFilename streamId imageId) fs1;
          fs3 = ofstream_write (brightFilename streamId imageId)
                  (take (nat numberOfPixels * 8) (bytes64 e brightPixels)) fs2
      in ofstream_write (darkFilename streamId imageId)
           (take (nat numberOfPixels * 8) (bytes64 e darkPixels)) fs3)"

definition ThreadPool :: "int \<Rightarrow> error + nat" where
  \<comment> \<open>Modelled from the spec: the constructor of the pool of the absent
      \<^verbatim>\<open>ThreadPool.h\<close>, "fixed-size pool of size concurrency". The result is the number
      of workers; a negative number is not the size of a pool.\<close>
  "ThreadPool threads = (if threads < 0 then Inl bad_pool_size else Inr (nat threads))"

definition process ::
  "'m env \<Rightarrow> filesystem \<Rightarrow> istream \<Rightarrow> int \<Rightarrow> int \<Rightarrow> int \<Rightarrow> int \<Rightarrow> string
     \<Rightarrow> 'm event list \<times> (error + filesystem)" where
  \<comment> \<open>The two arrays are declared before the first \<^verbatim>\<open>get()\<close>. A future yields the
      value of its task once a worker has run it; in a pool without workers no task is
      run, and the first \<^verbatim>\<open>get()\<close> does not return.\<close>
  "process env fs s streamId concurrency width height url =
     (let concurrency' =
            (if concurrency = - 1 then int (hardware_concurrency env) else concurrency)
      in case ThreadPool concurrency' of
           Inl err \<Rightarrow> ([NewThreadPool concurrency'], Inl err)
         | Inr workers \<Rightarrow>
             (case process_loop env (init_state concurrency') s of
                (st, Inl err) \<Rightarrow> (trace st, Inl err)
              | (st, Inr s') \<Rightarrow>
                  if width * height \<le> 0 \<or> 2 ^ 31 \<le> width * height
                  then (trace st, Inl bad_array_size)
                  else if workers = 0 \<and> results st \<noteq> []
                  then (trace st, Inl never_returns)
                  else
                    (case aggregate width height (results st) of
                       Inl err \<Rightarrow> (trace st, Inl err)
                     | Inr (brightPixels, darkPixels) \<Rightarrow>
                         (trace st,
                          Inr (write_images (host_endian env) streamId (width * height)
                                 brightPixels darkPixels fs)))))"


section \<open>A reference writer\<close>

text \<open>
  The writer of the wire format, following the description of the record: a header of 1024
  words of 32 bits, with \<open>imagesInBlock\<close>, \<open>rows\<close>, \<open>columns\<close>, \<open>version\<close> and
  \<open>timestamp\<close> in words 0 to 4, five reserved words, the image numbers from word 10 on and
  an unused tail; then the samples of the payload, 16 bits each. The reserved words and the
  tail are arguments, since any content is allowed there.
\<close>

definition encodeHeader :: "endian \<Rightarrow> Header \<Rightarrow> uint32 list \<Rightarrow> uint32 list \<Rightarrow> byte list" where
  "encodeHeader e h reserved unused =
     concat (map (to_bytes e 4)
       ([imagesInBlock h, rows h, columns h, version h, timestamp h] @ reserved
          @ imageNumbers h @ unused))"

definition encodeBlock :: "endian \<Rightarrow> Block \<Rightarrow> uint32 list \<Rightarrow> uint32 list \<Rightarrow> byte list" where
  "encodeBlock e b reserved unused =
     encodeHeader e (header b) reserved unused @ concat (map (to_bytes e 2) (data b))"


text \<open>Sample data on which the codec and the pipeline are run.\<close>

definition sample_block :: Block where
  "sample_block =
     \<lparr>header = \<lparr>imagesInBlock = 2, rows = 1, columns = 2, version = 1, timestamp = 7,
                 imageNumbers = [5, 3]\<rparr>,
      data = [10, 20, 30, 40]\<rparr>"

definition sample_env :: "(uint32 \<times> uint32 \<times> int \<times> int) env" where
  \<comment> \<open>a mask is the tuple of the arguments it was made from; the bright value of an image
      is the length of the pixel buffer, the dark value its offset\<close>
  "sample_env =
     \<lparr>host_endian = LittleEndian,
      hardware_concurrency = 4,
      createAnnularMask = (\<lambda>r c inner outer. (r, c, inner, outer)),
      calculateSTEMValues =
        (\<lambda>d offset numberOfPixels bm dm n.
           \<lparr>imageNumber = n, bright = of_nat (length d), dark = ucast offset\<rparr>)\<rparr>"

definition sample_stream :: istream where
  "sample_stream = encodeBlock LittleEndian sample_block (replicate 5 0) (replicate 1012 0)"

definition overflow_header :: Header where
  "overflow_header =
     \<lparr>imagesInBlock = 1, rows = 65536, columns = 65536, version = 1, timestamp = 0,
      imageNumbers = [1]\<rparr>"

definition oversized_header :: istream where
  \<comment> \<open>the 4096 bytes of a header that announces 1015 images\<close>
  "oversized_header = concat (map (to_bytes LittleEndian 4) (1015 # replicate 1023 (0 :: uint32)))"

definition overflow_block :: Block where
  \<comment> \<open>the block of \<open>overflow_header\<close> with its \<open>2 ^ 32\<close> samples\<close>
  "overflow_block = \<lparr>header = overflow_header, data = replicate (2 ^ 32) 0\<rparr>"

definition terminator_record :: istream where
  \<comment> \<open>a header record whose words are all 0, the version word among them\<close>
  "terminator_record =
     encodeBlock LittleEndian Block_default (replicate 5 0) (replicate 1014 0)"

definition sample_block2 :: Block where
  \<comment> \<open>other dimensions than \<open>sample_block\<close>, and image number 5 once more\<close>
  "sample_block2 =
     \<lparr>header = \<lparr>imagesInBlock = 1, rows = 3, columns = 1, version = 1, timestamp = 8,
                 imageNumbers = [5]\<rparr>,
      data = [7, 8, 9]\<rparr>"

definition two_block_stream :: istream where
  "two_block_stream =
     encodeBlock LittleEndian sample_block (replicate 5 0) (replicate 1012 0)
       @ encodeBlock LittleEndian sample_block2 (replicate 5 0) (replicate 1013 0)"

definition sample_results :: "STEMValues list list" where
  \<comment> \<open>what the tasks of \<open>two_block_stream\<close> return under \<open>sample_env\<close>\<close>
  "sample_results =
     [[\<lparr>imageNumber = 5, bright = 4, dark = 0\<rparr>, \<lparr>imageNumber = 3, bright = 4, dark = 2\<rparr>],
      [\<lparr>imageNumber = 5, bright = 3, dark = 0\<rparr>]]"


section \<open>Properties of the byte codec\<close>

lemma take_bit_split8:
  "take_bit (8 + n) (w::'a::len word) = take_bit 8 w + 256 * take_bit n (drop_bit 8 w)"
proof -
  have "take_bit (8 + n) w
      = push_bit 8 (drop_bit 8 (take_bit (8 + n) w)) + take_bit 8 (take_bit (8 + n) w)"
    by (simp only: bits_ident)
  also have "drop_bit 8 (take_bit (8 + n) w) = take_bit n (drop_bit 8 w)"
    by (simp add: drop_bit_take_bit)
  also have "take_bit 8 (take_bit (8 + n) w) = take_bit 8 w"
    by simp
  finally show ?thesis by (simp add: push_bit_eq_mult)
qed

lemma bytes_of_word_Suc:
  "bytes_of_word (Suc n) w = ucast w # bytes_of_word n (drop_bit 8 w)"
proof -
  have "[0..<Suc n] = 0 # map Suc [0..<n]"
    by (simp add: upt_conv_Cons map_Suc_upt del: upt_Suc)
  then show ?thesis
    by (simp add: bytes_of_word_def comp_def add.commute del: upt_Suc)
qed

lemma word_of_bytes_of_word:
  "(word_of_bytes (bytes_of_word n w) :: 'a::len word) = take_bit (8 * n) w"
proof (induction n arbitrary: w)
  case 0
  then show ?case by (simp add: word_of_bytes_def bytes_of_word_def)
next
  case (Suc n)
  have "(ucast (ucast w :: byte) :: 'a word) = take_bit 8 w"
    by (simp add: unsigned_ucast_eq)
  with Suc[of "drop_bit 8 w"] take_bit_split8[of "8 * n" w] show ?case
    by (simp add: word_of_bytes_def bytes_of_word_Suc)
qed

lemma length_to_bytes [simp]: "length (to_bytes e n w) = n"
  by (cases e) (simp_all add: to_bytes_def bytes_of_word_def)

lemma from_to_bytes: "(from_bytes e (to_bytes e n w) :: 'a::len word) = take_bit (8 * n) w"
  by (cases e) (simp_all add: to_bytes_def from_bytes_def word_of_bytes_of_word)

lemma from_to_bytes32 [simp]: "from_bytes e (to_bytes e 4 w) = (w :: uint32)"
  by (simp add: from_to_bytes take_bit_word_eq_self)

lemma from_to_bytes16 [simp]: "from_bytes e (to_bytes e 2 w) = (w :: uint16)"
  by (simp add: from_to_bytes take_bit_word_eq_self)

lemma from_to_bytes64 [simp]: "from_bytes e (to_bytes e 8 w) = (w :: uint64)"
  by (simp add: from_to_bytes take_bit_word_eq_self)

lemma list_of_length4: "length xs = 4 \<Longrightarrow> \<exists>a b c d. xs = [a, b, c, d]"
  by (auto simp: numeral_eq_Suc length_Suc_conv)

lemma list_of_length2: "length xs = 2 \<Longrightarrow> \<exists>a b. xs = [a, b]"
  by (auto simp: numeral_eq_Suc length_Suc_conv)

lemma words32_encode:
  "words32 e (concat (map (to_bytes e 4) ws) @ bs) = ws @ words32 e bs"
proof (induction ws)
  case Nil
  then show ?case by simp
next
  case (Cons w ws)
  have "length (to_bytes e 4 w) = 4" by simp
  then obtain a b c d where abcd: "to_bytes e 4 w = [a, b, c, d]"
    using list_of_length4 by blast
  have "from_bytes e [a, b, c, d] = w"
    using from_to_bytes32[of e w] by (simp add: abcd)
  with Cons show ?case by (simp add: abcd)
qed

lemma words16_encode:
  "words16 e (concat (map (to_bytes e 2) ws) @ bs) = ws @ words16 e bs"
proof (induction ws)
  case Nil
  then show ?case by simp
next
  case (Cons w ws)
  have "length (to_bytes e 2 w) = 2" by simp
  then obtain a b where ab: "to_bytes e 2 w = [a, b]"
    using list_of_length2 by blast
  have "from_bytes e [a, b] = w"
    using from_to_bytes16[of e w] by (simp add: ab)
  with Cons show ?case by (simp add: ab)
qed

lemma length_concat_to_bytes [simp]:
  "length (concat (map (to_bytes e n) ws)) = n * length ws"
  by (induction ws) simp_all

lemma length_encodeHeader:
  "length reserved = 5 \<Longrightarrow> length (imageNumbers h) + length unused = 1014
     \<Longrightarrow> length (encodeHeader e h reserved unused) = 4096"
  by (simp add: encodeHeader_def)

lemma readHeader_encodeHeader:
  assumes r: "length reserved = 5"
    and n: "length (imageNumbers h) = unat (imagesInBlock h)"
    and u: "unat (imagesInBlock h) + length unused = 1014"
  shows "readHeader e (encodeHeader e h reserved unused @ rest) = Inr (h, rest)"
proof -
  define ws where "ws = [imagesInBlock h, rows h, columns h, version h, timestamp h] @ reserved
               @ imageNumbers h @ unused"
  have len: "length (encodeHeader e h reserved unused) = 4096"
    using r n u by (simp add: length_encodeHeader)
  have rb: "read_bytes 4096 (encodeHeader e h reserved unused @ rest)
              = Inr (encodeHeader e h reserved unused, rest)"
    using len by (simp add: read_bytes_def)
  have ws: "words32 e (encodeHeader e h reserved unused) = ws"
    using words32_encode[of e ws "[]"] by (simp add: encodeHeader_def ws_def)
  have nth: "ws ! 0 = imagesInBlock h" "ws ! Suc 0 = rows h" "ws ! 2 = columns h"
    "ws ! 3 = version h" "ws ! 4 = timestamp h"
    by (simp_all add: ws_def)
  have dr: "take (unat (imagesInBlock h)) (drop 10 ws) = imageNumbers h"
    using r n by (simp add: ws_def)
  have le: "unat (imagesInBlock h) \<le> 1014" using u by simp
  show ?thesis
    unfolding readHeader_def
    by (simp add: rb ws nth dr le Let_def)
qed


lemma peek_Nil [simp]: "peek [] = None"
  by (simp add: peek_def)

lemma peek_eq_None [simp]: "peek s = None \<longleftrightarrow> s = []"
  by (simp add: peek_def split: list.splits)

lemma read_Nil: "read e [] = Inr (Block_default, [])"
  by (simp add: read_def)

lemma read_nonempty:
  "s \<noteq> [] \<Longrightarrow> read e s =
     (case read_try e s of
        Inl EofException \<Rightarrow> Inl (invalid_argument ''Unexpected EOF while processing stream.'')
      | Inl err \<Rightarrow> Inl err
      | Inr r \<Rightarrow> Inr r)"
  by (cases s) (simp_all add: read_def peek_def)

lemma read_try_encodeBlock:
  assumes r: "length reserved = 5"
    and n: "length (imageNumbers (header b)) = unat (imagesInBlock (header b))"
    and u: "unat (imagesInBlock (header b)) + length unused = 1014"
    and d: "length (data b)
              = unat (rows (header b) * columns (header b) * imagesInBlock (header b))"
  shows "read_try e (encodeBlock e b reserved unused @ rest) = Inr (b, rest)"
proof -
  let ?payload = "concat (map (to_bytes e 2) (data b))"
  have h: "readHeader e (encodeHeader e (header b) reserved unused @ ?payload @ rest)
             = Inr (header b, ?payload @ rest)"
    using r n u by (rule readHeader_encodeHeader)
  have len: "length ?payload
               = unat (rows (header b) * columns (header b) * imagesInBlock (header b)) * 2"
    using d by simp
  have rb: "read_bytes (unat (rows (header b) * columns (header b) * imagesInBlock (header b)) * 2)
              (?payload @ rest) = Inr (?payload, rest)"
    using len by (simp add: read_bytes_def)
  have w: "words16 e ?payload = data b"
    using words16_encode[of e "data b" "[]"] by simp
  show ?thesis
    by (simp add: read_try_def encodeBlock_def h rb w Let_def)
qed

lemma encodeBlock_nonempty:
  "encodeBlock e b reserved unused @ rest \<noteq> []"
proof -
  have "length (encodeBlock e b reserved unused) > 0"
    by (simp add: encodeBlock_def encodeHeader_def)
  then have "encodeBlock e b reserved unused \<noteq> []"
    by auto
  then show ?thesis by simp
qed

lemma read_encodeBlock:
  assumes r: "length reserved = 5"
    and n: "length (imageNumbers (header b)) = unat (imagesInBlock (header b))"
    and u: "unat (imagesInBlock (header b)) + length unused = 1014"
    and d: "length (data b)
              = unat (rows (header b) * columns (header b) * imagesInBlock (header b))"
  shows "read e (encodeBlock e b reserved unused @ rest) = Inr (b, rest)"
  using read_try_encodeBlock[OF r n u d, of e rest] encodeBlock_nonempty[of e b reserved unused rest]
  by (simp add: read_nonempty)

lemma length_words32: "length (words32 e bs) = length bs div 4"
  by (induction e bs rule: words32.induct) simp_all

lemma length_words16: "length (words16 e bs) = length bs div 2"
  by (induction e bs rule: words16.induct) simp_all

lemma readHeader_Inr:
  assumes "readHeader e s = Inr (h, s')"
  shows "length s = 4096 + length s'" and "s' = drop 4096 s"
    and "length (imageNumbers h) = unat (imagesInBlock h)"
    and "unat (imagesInBlock h) \<le> 1014"
proof -
  from assms have len: "4096 \<le> length s"
    by (simp add: readHeader_def read_bytes_def split: if_splits)
  then have rb: "read_bytes 4096 s = Inr (take 4096 s, drop 4096 s)"
    by (simp add: read_bytes_def)
  have lw: "length (words32 e (take 4096 s)) = 1024"
    using len by (simp add: length_words32)
  from assms rb have n: "unat (words32 e (take 4096 s) ! 0) \<le> 1014"
    and h: "imagesInBlock h = words32 e (take 4096 s) ! 0"
      "imageNumbers h = take (unat (words32 e (take 4096 s) ! 0)) (drop 10 (words32 e (take 4096 s)))"
    and s': "s' = drop 4096 s"
    by (auto simp: readHeader_def Let_def split: if_splits)
  show "s' = drop 4096 s" by (rule s')
  show "length s = 4096 + length s'" using len s' by simp
  show "unat (imagesInBlock h) \<le> 1014" using n h by simp
  show "length (imageNumbers h) = unat (imagesInBlock h)" using n h lw by simp
qed

lemma read_try_Inr:
  "read_try e s = Inr (b, s') \<Longrightarrow>
     length s = 4096
       + 2 * unat (rows (header b) * columns (header b) * imagesInBlock (header b)) + length s'"
proof -
  assume a: "read_try e s = Inr (b, s')"
  then obtain h s1 where h: "readHeader e s = Inr (h, s1)"
    by (auto simp: read_try_def split: sum.splits)
  with a have "header b = h"
    and "length s1 = 2 * unat (rows h * columns h * imagesInBlock h) + length s'"
    by (auto simp: read_try_def read_bytes_def Let_def split: sum.splits if_splits)
  with readHeader_Inr(1)[OF h] show ?thesis by simp
qed

lemma read_try_short_header:
  "length s < 4096 \<Longrightarrow> read_try e s = Inl EofException"
  by (simp add: read_try_def readHeader_def read_bytes_def)

lemma read_try_short_payload:
  "readHeader e s = Inr (h, s1) \<Longrightarrow>
   length s1 < 2 * unat (rows h * columns h * imagesInBlock h) \<Longrightarrow>
   read_try e s = Inl EofException"
  by (simp add: read_try_def read_bytes_def Let_def mult.commute)



lemma read_short_record:
  assumes "s \<noteq> []"
    and "length s < 4096
         \<or> (\<exists>h s1. readHeader e s = Inr (h, s1)
                  \<and> length s1 < 2 * unat (rows h * columns h * imagesInBlock h))"
  shows "read e s = Inl (invalid_argument ''Unexpected EOF while processing stream.'')"
  using assms
  by (auto simp: read_nonempty read_try_short_header read_try_short_payload)

lemma sample_block_ok:
  "length (imageNumbers (header sample_block)) = unat (imagesInBlock (header sample_block))"
  "unat (imagesInBlock (header sample_block)) + length (replicate 1012 (0::uint32)) = 1014"
  "length (data sample_block)
     = unat (rows (header sample_block) * columns (header sample_block)
             * imagesInBlock (header sample_block))"
  by (simp_all add: sample_block_def)

lemma read_sample_stream: "read LittleEndian sample_stream = Inr (sample_block, [])"
  unfolding sample_stream_def
  using read_encodeBlock[of "replicate 5 0" sample_block "replicate 1012 0" LittleEndian "[]"]
    sample_block_ok
  by simp

lemma sample_stream_nonempty: "sample_stream \<noteq> []"
  using encodeBlock_nonempty[of LittleEndian sample_block "replicate 5 0" "replicate 1012 0" "[]"]
  by (simp add: sample_stream_def)


section \<open>Properties of the reading loop\<close>

lemma loop_body_masks_set:
  assumes "brightFieldMask st = Some bm" and "darkFieldMask st = Some dm"
  shows "loop_body env b st =
           st\<lparr>results := results st @ [compute_task env b (Some bm) (Some dm)],
              trace := trace st @ [Enqueue b (Some bm) (Some dm)]\<rparr>"
  using assms by (simp add: loop_body_def make_bright_def make_dark_def enqueue_def)

lemma loop_body_masks_null:
  assumes "brightFieldMask st = None" and "darkFieldMask st = None"
  shows "loop_body env b st =
           st\<lparr>brightFieldMask :=
                  Some (createAnnularMask env (rows (header b)) (columns (header b)) 0 288),
              darkFieldMask :=
                  Some (createAnnularMask env (rows (header b)) (columns (header b)) 40 288),
              results := results st @
                [compute_task env b
                   (Some (createAnnularMask env (rows (header b)) (columns (header b)) 0 288))
                   (Some (createAnnularMask env (rows (header b)) (columns (header b)) 40 288))],
              trace := trace st @
                [CreateAnnularMask (rows (header b)) (columns (header b)) 0 288,
                 CreateAnnularMask (rows (header b)) (columns (header b)) 40 288,
                 Enqueue b
                   (Some (createAnnularMask env (rows (header b)) (columns (header b)) 0 288))
                   (Some (createAnnularMask env (rows (header b)) (columns (header b)) 40 288))]\<rparr>"
  using assms by (simp add: loop_body_def make_bright_def make_dark_def enqueue_def)

lemma process_loop_masks_set:
  assumes "process_loop env st s = (st', r)"
    and "brightFieldMask st = Some bm" and "darkFieldMask st = Some dm"
  shows "\<exists>bs. st' = st\<lparr>results := results st @ map (\<lambda>b. compute_task env b (Some bm) (Some dm)) bs,
                       trace := trace st @ map (\<lambda>b. Enqueue b (Some bm) (Some dm)) bs\<rparr>"
  using assms
proof (induction env st s rule: process_loop.induct)
  case (1 env st s)
  show ?case
  proof (cases "read (host_endian env) s")
    case (Inl err)
    with "1.prems"(1) have "st' = st"
      by (simp add: process_loop.simps[of env st s])
    then show ?thesis by (intro exI[of _ "[]"]) simp
  next
    case (Inr x)
    obtain b s' where x: "x = (b, s')" by (cases x)
    show ?thesis
    proof (cases "version (header b) = 0")
      case True
      with "1.prems"(1) Inr x have "st' = st"
        by (simp add: process_loop.simps[of env st s])
      then show ?thesis by (intro exI[of _ "[]"]) simp
    next
      case False
      let ?st1 = "loop_body env b st"
      have st1: "?st1 = st\<lparr>results := results st @ [compute_task env b (Some bm) (Some dm)],
                           trace := trace st @ [Enqueue b (Some bm) (Some dm)]\<rparr>"
        using "1.prems"(2,3) by (rule loop_body_masks_set)
      from "1.prems"(1) Inr x False have run: "process_loop env ?st1 s' = (st', r)"
        by (simp add: process_loop.simps[of env st s])
      from "1.IH"[OF Inr x[symmetric] False run] "1.prems"(2,3) st1
      obtain bs where
        "st' = ?st1\<lparr>results := results ?st1 @ map (\<lambda>b. compute_task env b (Some bm) (Some dm)) bs,
                     trace := trace ?st1 @ map (\<lambda>b. Enqueue b (Some bm) (Some dm)) bs\<rparr>"
        by auto
      then have "st' = st\<lparr>results := results st @ map (\<lambda>b. compute_task env b (Some bm) (Some dm)) (b # bs),
                       trace := trace st @ map (\<lambda>b. Enqueue b (Some bm) (Some dm)) (b # bs)\<rparr>"
        by (simp add: st1)
      then show ?thesis by blast
    qed
  qed
qed


lemma process_loop_masks_null:
  assumes "process_loop env st s = (st', r)"
    and "brightFieldMask st = None" and "darkFieldMask st = None"
  shows "\<exists>bs. trace st' = trace st @
           (case bs of
              [] \<Rightarrow> []
            | b # _ \<Rightarrow>
                [CreateAnnularMask (rows (header b)) (columns (header b)) 0 288,
                 CreateAnnularMask (rows (header b)) (columns (header b)) 40 288]
                @ map (\<lambda>b'. Enqueue b'
                         (Some (createAnnularMask env (rows (header b)) (columns (header b)) 0 288))
                         (Some (createAnnularMask env (rows (header b)) (columns (header b)) 40 288)))
                    bs)"
proof (cases "read (host_endian env) s")
  case (Inl err)
  with assms(1) have "st' = st"
    by (simp add: process_loop.simps[of env st s])
  then show ?thesis by (intro exI[of _ "[]"]) simp
next
  case (Inr x)
  obtain b s' where x: "x = (b, s')" by (cases x)
  show ?thesis
  proof (cases "version (header b) = 0")
    case True
    with assms(1) Inr x have "st' = st"
      by (simp add: process_loop.simps[of env st s])
    then show ?thesis by (intro exI[of _ "[]"]) simp
  next
    case False
    let ?bm = "createAnnularMask env (rows (header b)) (columns (header b)) 0 288"
    let ?dm = "createAnnularMask env (rows (header b)) (columns (header b)) 40 288"
    let ?st1 = "loop_body env b st"
    note st1 = loop_body_masks_null[OF assms(2,3), of env b]
    from assms(1) Inr x False have run: "process_loop env ?st1 s' = (st', r)"
      by (simp add: process_loop.simps[of env st s])
    have "brightFieldMask ?st1 = Some ?bm" "darkFieldMask ?st1 = Some ?dm"
      by (simp_all add: st1)
    from process_loop_masks_set[OF run this] obtain bs where
      "st' = ?st1\<lparr>results := results ?st1 @ map (\<lambda>b. compute_task env b (Some ?bm) (Some ?dm)) bs,
                   trace := trace ?st1 @ map (\<lambda>b. Enqueue b (Some ?bm) (Some ?dm)) bs\<rparr>"
      by blast
    then have "trace st' = trace st @
        [CreateAnnularMask (rows (header b)) (columns (header b)) 0 288,
         CreateAnnularMask (rows (header b)) (columns (header b)) 40 288]
        @ map (\<lambda>b'. Enqueue b' (Some ?bm) (Some ?dm)) (b # bs)"
      by (simp add: st1)
    then show ?thesis by (intro exI[of _ "b # bs"]) simp
  qed
qed

lemma sample_block2_ok:
  "length (imageNumbers (header sample_block2)) = unat (imagesInBlock (header sample_block2))"
  "unat (imagesInBlock (header sample_block2)) + length (replicate 1013 (0::uint32)) = 1014"
  "length (data sample_block2)
     = unat (rows (header sample_block2) * columns (header sample_block2)
             * imagesInBlock (header sample_block2))"
  by (simp_all add: sample_block2_def)

lemma read_two_block_stream:
  "read LittleEndian two_block_stream
     = Inr (sample_block, encodeBlock LittleEndian sample_block2 (replicate 5 0) (replicate 1013 0))"
  "read LittleEndian (encodeBlock LittleEndian sample_block2 (replicate 5 0) (replicate 1013 0))
     = Inr (sample_block2, [])"
  using read_encodeBlock[of "replicate 5 0" sample_block "replicate 1012 0" LittleEndian
          "encodeBlock LittleEndian sample_block2 (replicate 5 0) (replicate 1013 0)"]
    read_encodeBlock[of "replicate 5 0" sample_block2 "replicate 1013 0" LittleEndian "[]"]
    sample_block_ok sample_block2_ok
  by (simp_all add: two_block_stream_def)

lemma process_loop_two_block_stream:
  "process_loop sample_env (init_state c) two_block_stream =
     (\<lparr>brightFieldMask = Some (1, 2, 0, 288),
       darkFieldMask = Some (1, 2, 40, 288),
       results = sample_results,
       trace = [NewThreadPool c,
                CreateAnnularMask 1 2 0 288,
                CreateAnnularMask 1 2 40 288,
                Enqueue sample_block (Some (1, 2, 0, 288)) (Some (1, 2, 40, 288)),
                Enqueue sample_block2 (Some (1, 2, 0, 288)) (Some (1, 2, 40, 288))]\<rparr>,
      Inr [])"
proof -
  have e: "host_endian sample_env = LittleEndian"
    by (simp add: sample_env_def)
  have v: "version (header sample_block) \<noteq> 0" "version (header sample_block2) \<noteq> 0"
    by (simp_all add: sample_block_def sample_block2_def)
  have upt2: "[0..<2] = [0, 1]" by (simp add: upt_conv_Cons)
  show ?thesis
    apply (subst process_loop.simps)
    apply (simp add: e read_two_block_stream v)
    apply (subst process_loop.simps)
    apply (simp add: e read_two_block_stream v)
    apply (subst process_loop.simps)
    apply (simp add: e read_Nil Block_default_def)
    apply (simp add: loop_body_def make_bright_def make_dark_def enqueue_def init_state_def
        compute_task_def sample_env_def)
    apply (simp add: sample_block_def sample_block2_def sample_results_def upt2)
    done
qed


section \<open>Properties of the aggregator\<close>

lemma write_values_append:
  "write_values (xs @ ys) px =
     (case write_values xs px of Inl err \<Rightarrow> Inl err | Inr px' \<Rightarrow> write_values ys px')"
  by (induction xs px rule: write_values.induct) (simp_all add: Let_def)

lemma drain_concat: "drain res px = write_values (concat res) px"
  by (induction res arbitrary: px) (simp_all add: write_values_append split: sum.splits)

lemma write_values_length:
  "write_values vs (bp, dp) = Inr (bp', dp') \<Longrightarrow> length bp' = length bp \<and> length dp' = length dp"
  by (induction vs arbitrary: bp dp) (auto simp: Let_def split: if_splits)

lemma write_values_Inr_iff:
  "length bp = length dp \<Longrightarrow>
   (\<exists>px. write_values vs (bp, dp) = Inr px)
     \<longleftrightarrow> (\<forall>v \<in> set vs. unat (imageNumber v - 1) < length bp)"
  by (induction vs arbitrary: bp dp) (auto simp: Let_def)

lemma write_values_error:
  "write_values vs px = Inl err \<Longrightarrow> err = out_of_bounds"
  by (induction vs px rule: write_values.induct) (auto simp: Let_def split: if_splits)

lemma find_snoc:
  "find P (xs @ [v]) =
     (case find P xs of Some x \<Rightarrow> Some x | None \<Rightarrow> if P v then Some v else None)"
  by (induction xs) simp_all

lemma find_rev_Cons:
  "find P (rev (v # vs)) =
     (case find P (rev vs) of Some x \<Rightarrow> Some x | None \<Rightarrow> if P v then Some v else None)"
  by (simp add: find_snoc)

lemma write_values_nth:
  assumes "write_values vs (bp, dp) = Inr (bp', dp')" and "k < length bp" and "k < length dp"
  shows "bp' ! k = (case find (\<lambda>v. unat (imageNumber v - 1) = k) (rev vs) of
                      None \<Rightarrow> bp ! k | Some v \<Rightarrow> bright v)
       \<and> dp' ! k = (case find (\<lambda>v. unat (imageNumber v - 1) = k) (rev vs) of
                      None \<Rightarrow> dp ! k | Some v \<Rightarrow> dark v)"
  using assms
proof (induction vs arbitrary: bp dp)
  case Nil
  then show ?case by simp
next
  case (Cons v vs)
  let ?j = "unat (imageNumber v - 1)"
  from Cons.prems(1) have j: "?j < length bp" "?j < length dp"
    and run: "write_values vs (bp[?j := bright v], dp[?j := dark v]) = Inr (bp', dp')"
    by (auto simp: Let_def split: if_splits)
  from Cons.IH[OF run] Cons.prems(2,3)
  have IH: "bp' ! k = (case find (\<lambda>v. unat (imageNumber v - 1) = k) (rev vs) of
                      None \<Rightarrow> bp[?j := bright v] ! k | Some v \<Rightarrow> bright v)"
    "dp' ! k = (case find (\<lambda>v. unat (imageNumber v - 1) = k) (rev vs) of
                      None \<Rightarrow> dp[?j := dark v] ! k | Some v \<Rightarrow> dark v)"
    by simp_all
  show ?case
    using IH Cons.prems(2,3) j
    by (simp only: find_rev_Cons) (auto split: option.splits simp: nth_list_update)
qed

lemma index_in_range_iff:
  fixes x :: uint32
  assumes "n < 2 ^ 32"
  shows "unat (x - 1) < n \<longleftrightarrow> 1 \<le> unat x \<and> unat x \<le> n"
proof (cases "x = 0")
  case True
  then show ?thesis using assms by (simp add: unsigned_minus_1_eq_mask mask_eq_exp_minus_1)
next
  case False
  then have "unat (x - 1) = unat x - 1"
    by (simp add: unat_minus_one)
  moreover from False have "1 \<le> unat x"
    by (simp add: unat_gt_0 Suc_le_eq)
  ultimately show ?thesis by auto
qed


lemma aggregate_Inr:
  assumes "aggregate width height res = Inr (bp, dp)"
  shows "0 < width * height" and "width * height < 2 ^ 31"
    and "write_values (concat res)
           (replicate (nat (width * height)) 0, replicate (nat (width * height)) 0) = Inr (bp, dp)"
    and "length bp = nat (width * height)" and "length dp = nat (width * height)"
proof -
  from assms show 1: "0 < width * height" and 2: "width * height < 2 ^ 31"
    by (auto simp: aggregate_def Let_def split: if_splits)
  with assms show 3: "write_values (concat res)
           (replicate (nat (width * height)) 0, replicate (nat (width * height)) 0) = Inr (bp, dp)"
    by (simp add: aggregate_def Let_def drain_concat)
  from write_values_length[OF 3]
  show "length bp = nat (width * height)" and "length dp = nat (width * height)"
    by simp_all
qed

lemma aggregate_sample_results:
  "aggregate 5 1 sample_results = Inr ([0, 0, 4, 0, 3], [0, 0, 2, 0, 0])"
proof -
  have r: "(replicate 5 0)[4 := 4, 2 := 4, 4 := 3] = [0, 0, 4, 0, 3 :: uint64]"
    "(replicate 5 0)[4 := 0, 2 := 2, 4 := 0] = [0, 0, 2, 0, 0 :: uint64]"
    by code_simp+
  show ?thesis
    by (simp add: aggregate_def sample_results_def Let_def r)
qed



section \<open>Properties of the file sink\<close>


















section \<open>Claims about the record codec\<close>

lemma terminator_record_zeros: "terminator_record = replicate 4096 0"
proof (rule replicate_eqI)
  have "length (encodeHeader LittleEndian (header Block_default) (replicate 5 0)
                  (replicate 1014 0)) = 4096"
    by (rule length_encodeHeader) (simp_all add: Block_default_def)
  moreover have "data Block_default = []"
    by (simp add: Block_default_def)
  ultimately show "length terminator_record = 4096"
    by (simp add: terminator_record_def encodeBlock_def)
next
  fix y
  assume "y \<in> set terminator_record"
  then show "y = 0"
    by (auto simp: terminator_record_def encodeBlock_def encodeHeader_def Block_default_def
        to_bytes_def bytes_of_word_def)
qed

lemma read_terminator_record:
  "read LittleEndian (terminator_record @ rest) = Inr (Block_default, rest)"
  unfolding terminator_record_def
  by (rule read_encodeBlock) (simp_all add: Block_default_def)

lemma process_loop_terminator_record:
  "process_loop env st (terminator_record @ rest) = (st, Inr rest)"
  if "host_endian env = LittleEndian"
  using that
  by (simp add: process_loop.simps[of env st "terminator_record @ rest"]
      read_terminator_record Block_default_def)

lemma read_version_0_iff:
  "(\<exists>b s'. read e s = Inr (b, s') \<and> version (header b) = 0) \<longleftrightarrow>
     s = [] \<or>
     (4096 \<le> length s
      \<and> words32 e (take 4096 s) ! 3 = 0
      \<and> unat (words32 e (take 4096 s) ! 0) \<le> 1014
      \<and> 4096 + 2 * unat (words32 e (take 4096 s) ! 1 * words32 e (take 4096 s) ! 2
                          * words32 e (take 4096 s) ! 0) \<le> length s)"
proof (cases "s = []")
  case True
  then show ?thesis by (simp add: read_Nil Block_default_def)
next
  case False
  then show ?thesis
    by (auto simp: read_nonempty read_try_def readHeader_def read_bytes_def Let_def
             split: sum.splits error.splits if_splits)
qed

lemma read_nothing_consumed_iff:
  "read e s = Inr (b, s) \<longleftrightarrow> s = [] \<and> b = Block_default"
proof (cases "s = []")
  case True
  then show ?thesis by (auto simp: read_Nil)
next
  case False
  have "read e s \<noteq> Inr (b, s)"
  proof
    assume "read e s = Inr (b, s)"
    with False have "read_try e s = Inr (b, s)"
      by (auto simp: read_nonempty split: sum.splits error.splits)
    from read_try_Inr[OF this] show False by simp
  qed
  with False show ?thesis by simp
qed

text \<open>
  Claim C2, as the source has it. Where no byte is left in the stream, also at the start of
  a stream without any block, \<^verbatim>\<open>read()\<close> returns the default block, whose header has
  version 0, and raises nothing; the loop of \<^verbatim>\<open>process\<close> then ends at once. This is the
  only case in which \<^verbatim>\<open>read()\<close> returns without consuming a byte. It is not the only
  case in which \<^verbatim>\<open>read()\<close> returns a block of version 0, which is what ends the loop
  without an error: that happens at the end of the stream and also when the stream goes
  on with a header whose version word is 0, whose image count is at most 1014 and whose
  payload, of the size that the source computes, is there.
\<close>

theorem read_clean_termination:
  "read e [] = Inr (Block_default, [])
   \<and> version (header Block_default) = 0
   \<and> process_loop env st [] = (st, Inr [])
   \<and> (read e s = Inr (b, s) \<longleftrightarrow> s = [] \<and> b = Block_default)
   \<and> ((\<exists>b s'. read e s = Inr (b, s') \<and> version (header b) = 0) \<longleftrightarrow>
         s = [] \<or>
         (4096 \<le> length s
          \<and> words32 e (take 4096 s) ! 3 = 0
          \<and> unat (words32 e (take 4096 s) ! 0) \<le> 1014
          \<and> 4096 + 2 * unat (words32 e (take 4096 s) ! 1 * words32 e (take 4096 s) ! 2
                              * words32 e (take 4096 s) ! 0) \<le> length s))"
proof -
  have "process_loop env st [] = (st, Inr [])"
    by (simp add: process_loop.simps[of env st "[]"] read_Nil Block_default_def)
  moreover have "version (header Block_default) = 0"
    by (simp add: Block_default_def)
  ultimately show ?thesis
    using read_Nil[of e] read_nothing_consumed_iff[of e s b] read_version_0_iff[of e s]
    by blast
qed

theorem read_clean_termination_witness:
  "read LittleEndian [] = Inr (Block_default, [])
   \<and> process_loop sample_env (init_state 1) [] = (init_state 1, Inr [])
   \<and> read LittleEndian (terminator_record @ sample_stream) = Inr (Block_default, sample_stream)
   \<and> (\<exists>b s'. read LittleEndian (terminator_record @ sample_stream) = Inr (b, s')
         \<and> version (header b) = 0)
   \<and> 4096 \<le> length (terminator_record @ sample_stream)
   \<and> words32 LittleEndian (take 4096 (terminator_record @ sample_stream)) ! 3 = 0
   \<and> read LittleEndian (terminator_record @ sample_stream)
       \<noteq> Inr (Block_default, terminator_record @ sample_stream)"
proof -
  have ne: "terminator_record @ sample_stream \<noteq> []"
    using sample_stream_nonempty by simp
  have v: "version (header Block_default) = 0"
    by (simp add: Block_default_def)
  from read_clean_termination[of LittleEndian sample_env "init_state 1"
      "terminator_record @ sample_stream" Block_default]
    read_terminator_record[of sample_stream] ne v
  show ?thesis by blast
qed

text \<open>
  Claim C2, as the specification has it, makes the peek the only path to a clean end. On
  the stream that holds a header record of 4096 zero bytes and then the sample block,
  bytes are left, \<^verbatim>\<open>read()\<close> returns the very block that it returns at the end of a
  stream, and the loop of \<^verbatim>\<open>process\<close> ends without an error and with the sample block
  unread.
\<close>

theorem read_clean_termination_counterexample:
  "terminator_record @ sample_stream \<noteq> []
   \<and> terminator_record = replicate 4096 0
   \<and> sample_stream \<noteq> []
   \<and> read LittleEndian (terminator_record @ sample_stream) = Inr (Block_default, sample_stream)
   \<and> process_loop sample_env (init_state 1) (terminator_record @ sample_stream)
       = (init_state 1, Inr sample_stream)"
  using sample_stream_nonempty terminator_record_zeros read_terminator_record[of sample_stream]
    process_loop_terminator_record[of sample_env "init_state 1" sample_stream]
  by (simp add: sample_env_def)

text \<open>
  Claim C3. A stream with at least one byte left, but with fewer bytes than the header or
  than the payload that the header declares, is to end in the error for a truncated
  stream. The source computes the number of samples \<^verbatim>\<open>rows*columns*imagesInBlock\<close> in
  \<^verbatim>\<open>uint32_t\<close>. For a header of one image of 65536 rows and 65536 columns the declared
  payload is \<open>2 ^ 32\<close> samples, the product wraps around to 0, and on a stream that ends
  right after this header \<^verbatim>\<open>read()\<close> returns a block with an empty pixel buffer
  instead of raising the error.
\<close>

theorem read_overflow_header:
  "length (encodeHeader e overflow_header (replicate 5 0) (replicate 1013 0)) = 4096
   \<and> unat (rows overflow_header) * unat (columns overflow_header)
       * unat (imagesInBlock overflow_header) = 2 ^ 32
   \<and> read e (encodeHeader e overflow_header (replicate 5 0) (replicate 1013 0))
       = Inr (\<lparr>header = overflow_header, data = []\<rparr>, [])"
proof -
  have "read e (encodeBlock e \<lparr>header = overflow_header, data = []\<rparr>
                  (replicate 5 0) (replicate 1013 0) @ [])
          = Inr (\<lparr>header = overflow_header, data = []\<rparr>, [])"
    by (rule read_encodeBlock) (simp_all add: overflow_header_def)
  then show ?thesis
    by (simp add: encodeBlock_def length_encodeHeader overflow_header_def)
qed

lemma read_roundtrip_without_overflow:
  assumes "length reserved = 5"
    and "length (imageNumbers (header b)) = unat (imagesInBlock (header b))"
    and "unat (imagesInBlock (header b)) + length unused = 1014"
    and "length (data b)
           = unat (rows (header b)) * unat (columns (header b)) * unat (imagesInBlock (header b))"
    and "unat (rows (header b)) * unat (columns (header b)) * unat (imagesInBlock (header b))
           < 2 ^ 32"
  shows "readHeader e (encodeHeader e (header b) reserved unused @ rest) = Inr (header b, rest)
       \<and> read e (encodeBlock e b reserved unused @ rest) = Inr (b, rest)"
proof -
  have "unat (rows (header b) * columns (header b) * imagesInBlock (header b))
      = (unat (rows (header b)) * unat (columns (header b)) * unat (imagesInBlock (header b)))
          mod 2 ^ 32"
    by (simp add: unat_word_ariths mod_mult_left_eq)
  also have "\<dots> = unat (rows (header b)) * unat (columns (header b))
                    * unat (imagesInBlock (header b))"
    using assms(5) by simp
  finally have "length (data b)
      = unat (rows (header b) * columns (header b) * imagesInBlock (header b))"
    using assms(4) by simp
  with assms(1-3) show ?thesis
    by (simp add: readHeader_encodeHeader read_encodeBlock)
qed

text \<open>
  Claim C5. A block written by the reference writer, its header filling 1024 words with
  five reserved words and the image numbers from word 10 on and its payload behind, is to
  be read back field by field. \<^verbatim>\<open>readHeader\<close> does return the header. \<^verbatim>\<open>read()\<close>
  computes the number of samples \<^verbatim>\<open>rows*columns*imagesInBlock\<close> in \<^verbatim>\<open>uint32_t\<close>: for
  the block of one image of 65536 rows and 65536 columns with its \<open>2 ^ 32\<close> samples the
  product wraps around to 0, and \<^verbatim>\<open>read()\<close> returns a block with an empty pixel buffer
  and leaves the whole payload in the stream.
\<close>

theorem read_roundtrip_overflow:
  "length (imageNumbers (header overflow_block)) = unat (imagesInBlock (header overflow_block))
   \<and> length (data overflow_block)
       = unat (rows (header overflow_block)) * unat (columns (header overflow_block))
           * unat (imagesInBlock (header overflow_block))
   \<and> readHeader e (encodeBlock e overflow_block (replicate 5 0) (replicate 1013 0))
       = Inr (header overflow_block, concat (map (to_bytes e 2) (data overflow_block)))
   \<and> read e (encodeBlock e overflow_block (replicate 5 0) (replicate 1013 0))
       = Inr (\<lparr>header = overflow_header, data = []\<rparr>,
              concat (map (to_bytes e 2) (data overflow_block)))
   \<and> read e (encodeBlock e overflow_block (replicate 5 0) (replicate 1013 0))
       \<noteq> Inr (overflow_block, [])"
proof -
  let ?payload = "concat (map (to_bytes e 2) (data overflow_block))"
  let ?s = "encodeBlock e overflow_block (replicate 5 0) (replicate 1013 0)"
  have hd: "header overflow_block = overflow_header"
    by (simp add: overflow_block_def)
  have s: "?s = encodeHeader e overflow_header (replicate 5 0) (replicate 1013 0) @ ?payload"
    by (simp only: encodeBlock_def hd)
  have h: "readHeader e ?s = Inr (overflow_header, ?payload)"
    unfolding s by (rule readHeader_encodeHeader) (simp_all add: overflow_header_def)
  have z: "rows overflow_header * columns overflow_header * imagesInBlock overflow_header = 0"
    by (simp add: overflow_header_def)
  have t: "read_try e ?s = Inr (\<lparr>header = overflow_header, data = []\<rparr>, ?payload)"
    by (simp add: read_try_def h z read_bytes_def)
  have ne: "?s \<noteq> []"
    using encodeBlock_nonempty[of e overflow_block "replicate 5 0" "replicate 1013 0" "[]"]
    by simp
  have r: "read e ?s = Inr (\<lparr>header = overflow_header, data = []\<rparr>, ?payload)"
    by (simp add: read_nonempty[OF ne] t)
  have d: "data overflow_block \<noteq> []"
    by (simp add: overflow_block_def)
  have l: "length (data overflow_block)
       = unat (rows (header overflow_block)) * unat (columns (header overflow_block))
           * unat (imagesInBlock (header overflow_block))"
    by (simp add: overflow_block_def overflow_header_def)
  have n: "length (imageNumbers (header overflow_block))
       = unat (imagesInBlock (header overflow_block))"
    by (simp add: overflow_block_def overflow_header_def)
  have "\<lparr>header = overflow_header, data = []\<rparr> \<noteq> overflow_block"
    using d by (auto simp: overflow_block_def)
  with r have "read e ?s \<noteq> Inr (overflow_block, [])" by simp
  with n l h r hd show ?thesis by simp
qed

text \<open>
  Claim C10. \<^verbatim>\<open>readHeader\<close> copies \<^verbatim>\<open>imagesInBlock\<close> words out of the 1024 words
  of \<^verbatim>\<open>headerData\<close>, from word 10 on, and does not look at \<^verbatim>\<open>imagesInBlock\<close>
  before. Once the 4096 bytes of a header are there, the copy stays inside the buffer, and
  a header is returned, exactly when word 0 is at most 1014; for every greater value the
  copy leaves the buffer.
\<close>

theorem readHeader_in_bounds_iff:
  assumes "4096 \<le> length s"
  shows "((\<exists>h s'. readHeader e s = Inr (h, s'))
            \<longleftrightarrow> unat (words32 e (take 4096 s) ! 0) \<le> 1014)
       \<and> (readHeader e s = Inl out_of_bounds
            \<longleftrightarrow> 1014 < unat (words32 e (take 4096 s) ! 0))"
  using assms
  by (auto simp: readHeader_def read_bytes_def Let_def)

theorem readHeader_in_bounds_iff_witness:
  "4096 \<le> length sample_stream
   \<and> ((\<exists>h s'. readHeader LittleEndian sample_stream = Inr (h, s'))
        \<longleftrightarrow> unat (words32 LittleEndian (take 4096 sample_stream) ! 0) \<le> 1014)
   \<and> (readHeader LittleEndian sample_stream = Inl out_of_bounds
        \<longleftrightarrow> 1014 < unat (words32 LittleEndian (take 4096 sample_stream) ! 0))
   \<and> 4096 \<le> length oversized_header
   \<and> unat (words32 LittleEndian (take 4096 oversized_header) ! 0) = 1015
   \<and> readHeader LittleEndian oversized_header = Inl out_of_bounds"
proof -
  have len: "length oversized_header = 4096"
    by (simp only: oversized_header_def length_concat_to_bytes) simp
  have "words32 LittleEndian (oversized_header @ []) = (1015 # replicate 1023 0) @ []"
    unfolding oversized_header_def by (simp only: words32_encode words32.simps)
  then have w: "words32 LittleEndian (take 4096 oversized_header) ! 0 = 1015"
    using len by simp
  have s: "4096 \<le> length sample_stream"
    by (simp add: sample_stream_def encodeBlock_def length_encodeHeader sample_block_def)
  show ?thesis
    using readHeader_in_bounds_iff[of sample_stream LittleEndian]
      readHeader_in_bounds_iff[of oversized_header LittleEndian] s len w
    by simp
qed


section \<open>The pipeline on the sample stream\<close>




lemma sample_bytes64:
  "bytes64 LittleEndian [0, 0, 4, 0, 3] =
     [0, 0, 0, 0, 0, 0, 0, 0,  0, 0, 0, 0, 0, 0, 0, 0,  4, 0, 0, 0, 0, 0, 0, 0,
      0, 0, 0, 0, 0, 0, 0, 0,  3, 0, 0, 0, 0, 0, 0, 0]"
  by code_simp


lemma process_without_workers:
  "process sample_env Map.empty two_block_stream 7 0 5 1 [] =
     ([NewThreadPool 0,
       CreateAnnularMask 1 2 0 288,
       CreateAnnularMask 1 2 40 288,
       Enqueue sample_block (Some (1, 2, 0, 288)) (Some (1, 2, 40, 288)),
       Enqueue sample_block2 (Some (1, 2, 0, 288)) (Some (1, 2, 40, 288))],
      Inl never_returns)"
  unfolding process_def Let_def
  by (simp add: ThreadPool_def process_loop_two_block_stream sample_results_def)







section \<open>Claims about the pipeline\<close>

text \<open>
  Claim C1, as the source has it. On the first block of a stream, the two mask pointers
  being null, \<^verbatim>\<open>process\<close> has \<^verbatim>\<open>createAnnularMask\<close> build the bright mask from the
  rows and columns of that block and the radii 0 and 288, and the dark mask from the same
  rows and columns and the radii 40 and 288, in this order and before the block is handed
  to the pool. The two masks have the outer radius in common; the inner radius is 0 for the
  bright mask and 40 for the dark one.
\<close>

theorem first_block_masks:
  assumes "read (host_endian env) s = Inr (b, s')" and "version (header b) \<noteq> 0"
    and "brightFieldMask st = None" and "darkFieldMask st = None"
  shows "brightFieldMask (fst (process_loop env st s))
           = Some (createAnnularMask env (rows (header b)) (columns (header b)) 0 288)
       \<and> darkFieldMask (fst (process_loop env st s))
           = Some (createAnnularMask env (rows (header b)) (columns (header b)) 40 288)
       \<and> take 3 (drop (length (trace st)) (trace (fst (process_loop env st s))))
           = [CreateAnnularMask (rows (header b)) (columns (header b)) 0 288,
              CreateAnnularMask (rows (header b)) (columns (header b)) 40 288,
              Enqueue b
                (Some (createAnnularMask env (rows (header b)) (columns (header b)) 0 288))
                (Some (createAnnularMask env (rows (header b)) (columns (header b)) 40 288))]"
proof -
  let ?bm = "createAnnularMask env (rows (header b)) (columns (header b)) 0 288"
  let ?dm = "createAnnularMask env (rows (header b)) (columns (header b)) 40 288"
  let ?st1 = "loop_body env b st"
  note st1 = loop_body_masks_null[OF assms(3,4), of env b]
  obtain st' r where run: "process_loop env ?st1 s' = (st', r)"
    by (cases "process_loop env ?st1 s'")
  have eq: "process_loop env st s = (st', r)"
    using assms(1,2) run by (simp add: process_loop.simps[of env st s])
  have "brightFieldMask ?st1 = Some ?bm" "darkFieldMask ?st1 = Some ?dm"
    by (simp_all add: st1)
  from process_loop_masks_set[OF run this] obtain bs where
    "st' = ?st1\<lparr>results := results ?st1 @ map (\<lambda>b. compute_task env b (Some ?bm) (Some ?dm)) bs,
                 trace := trace ?st1 @ map (\<lambda>b. Enqueue b (Some ?bm) (Some ?dm)) bs\<rparr>"
    by blast
  then have "brightFieldMask st' = Some ?bm" "darkFieldMask st' = Some ?dm"
    "trace st' = trace st @ [CreateAnnularMask (rows (header b)) (columns (header b)) 0 288,
         CreateAnnularMask (rows (header b)) (columns (header b)) 40 288,
         Enqueue b (Some ?bm) (Some ?dm)] @ map (\<lambda>b. Enqueue b (Some ?bm) (Some ?dm)) bs"
    by (simp_all add: st1)
  then show ?thesis by (simp add: eq)
qed

theorem first_block_masks_witness:
  "read (host_endian sample_env) two_block_stream
     = Inr (sample_block, encodeBlock LittleEndian sample_block2 (replicate 5 0) (replicate 1013 0))
   \<and> version (header sample_block) \<noteq> 0
   \<and> brightFieldMask (init_state 1 :: (uint32 \<times> uint32 \<times> int \<times> int) loop_state) = None
   \<and> darkFieldMask (init_state 1 :: (uint32 \<times> uint32 \<times> int \<times> int) loop_state) = None
   \<and> brightFieldMask (fst (process_loop sample_env (init_state 1) two_block_stream))
       = Some (1, 2, 0, 288)
   \<and> darkFieldMask (fst (process_loop sample_env (init_state 1) two_block_stream))
       = Some (1, 2, 40, 288)
   \<and> take 3 (drop (length (trace (init_state 1 :: (uint32 \<times> uint32 \<times> int \<times> int) loop_state)))
         (trace (fst (process_loop sample_env (init_state 1) two_block_stream))))
       = [CreateAnnularMask 1 2 0 288, CreateAnnularMask 1 2 40 288,
          Enqueue sample_block (Some (1, 2, 0, 288)) (Some (1, 2, 40, 288))]"
  using first_block_masks[of sample_env two_block_stream sample_block
          "encodeBlock LittleEndian sample_block2 (replicate 5 0) (replicate 1013 0)"
          "init_state 1"]
    read_two_block_stream(1)
  by (simp add: sample_env_def init_state_def sample_block_def)

text \<open>
  Claim C1, as the specification has it, asks for the outer radius of the bright mask to be
  the inner radius of the dark mask. On the sample stream, where a mask is the tuple of its
  arguments, the bright mask has the outer radius 288 and the dark mask the inner radius 40.
\<close>

theorem first_block_masks_counterexample:
  "brightFieldMask (fst (process_loop sample_env (init_state 1) two_block_stream))
     = Some (1, 2, 0, 288)
   \<and> darkFieldMask (fst (process_loop sample_env (init_state 1) two_block_stream))
     = Some (1, 2, 40, 288)
   \<and> map_option (snd \<circ> snd \<circ> snd)
         (brightFieldMask (fst (process_loop sample_env (init_state 1) two_block_stream)))
     \<noteq> map_option (fst \<circ> snd \<circ> snd)
         (darkFieldMask (fst (process_loop sample_env (init_state 1) two_block_stream)))"
  by (simp add: process_loop_two_block_stream)

text \<open>
  Claim C6. The aggregator takes the results block by block in the order of submission,
  which is one pass over all values in stream order, and stores the bright and the dark
  value of each at index \<^verbatim>\<open>imageNumber - 1\<close>. An element of the output is therefore 0
  where no value has that index, and otherwise the value of the last one in stream order
  that has it: a later value replaces an earlier one, nothing is added up.
\<close>

theorem aggregate_last_write_wins:
  assumes "aggregate width height res = Inr (brightPixels, darkPixels)"
    and "k < nat (width * height)"
  shows "write_values (concat res)
           (replicate (nat (width * height)) 0, replicate (nat (width * height)) 0)
           = Inr (brightPixels, darkPixels)
       \<and> brightPixels ! k =
           (case find (\<lambda>v. unat (imageNumber v - 1) = k) (rev (concat res)) of
              None \<Rightarrow> 0 | Some v \<Rightarrow> bright v)
       \<and> darkPixels ! k =
           (case find (\<lambda>v. unat (imageNumber v - 1) = k) (rev (concat res)) of
              None \<Rightarrow> 0 | Some v \<Rightarrow> dark v)"
  using write_values_nth[OF aggregate_Inr(3)[OF assms(1)], of k] assms(2)
    aggregate_Inr(3)[OF assms(1)]
  by (auto split: option.splits)

theorem aggregate_last_write_wins_witness:
  "aggregate 5 1 sample_results = Inr ([0, 0, 4, 0, 3], [0, 0, 2, 0, 0])
   \<and> (4::nat) < nat (5 * 1)
   \<and> [0, 0, 4, 0, 3 :: uint64] ! 4 =
       (case find (\<lambda>v. unat (imageNumber v - 1) = 4) (rev (concat sample_results)) of
          None \<Rightarrow> 0 | Some v \<Rightarrow> bright v)
   \<and> [0, 0, 2, 0, 0 :: uint64] ! 4 =
       (case find (\<lambda>v. unat (imageNumber v - 1) = 4) (rev (concat sample_results)) of
          None \<Rightarrow> 0 | Some v \<Rightarrow> dark v)
   \<and> find (\<lambda>v. unat (imageNumber v - 1) = 4) (rev (concat sample_results))
       = Some \<lparr>imageNumber = 5, bright = 3, dark = 0\<rparr>"
  using aggregate_last_write_wins[of 5 1 sample_results "[0, 0, 4, 0, 3]" "[0, 0, 2, 0, 0]" 4]
    aggregate_sample_results
  by (simp add: sample_results_def)

text \<open>
  Claim C7. For two output arrays of \<^verbatim>\<open>width*height\<close> elements, every write of the
  aggregator is inside the arrays exactly when every image number that it is given lies
  between 1 and \<^verbatim>\<open>width*height\<close>. Nothing else guards the index: one image number
  outside this range, 0 included, makes a write leave the arrays.
\<close>

theorem aggregate_in_bounds_iff:
  assumes "0 < width * height" and "width * height < 2 ^ 31"
  shows "((\<exists>px. aggregate width height res = Inr px)
            \<longleftrightarrow> (\<forall>v \<in> set (concat res).
                   1 \<le> uint (imageNumber v) \<and> uint (imageNumber v) \<le> width * height))
       \<and> (aggregate width height res = Inl out_of_bounds
            \<longleftrightarrow> (\<exists>v \<in> set (concat res).
                   uint (imageNumber v) < 1 \<or> width * height < uint (imageNumber v)))"
proof -
  let ?n = "nat (width * height)"
  have n: "?n < 2 ^ 32" using assms by (simp add: nat_less_iff)
  have agg: "aggregate width height res
               = write_values (concat res) (replicate ?n 0, replicate ?n 0)"
    using assms by (simp add: aggregate_def Let_def drain_concat)
  have idx: "unat (imageNumber v - 1) < ?n
               \<longleftrightarrow> 1 \<le> uint (imageNumber v) \<and> uint (imageNumber v) \<le> width * height"
    for v :: STEMValues
  proof -
    have "unat (imageNumber v) \<le> ?n \<longleftrightarrow> int (unat (imageNumber v)) \<le> width * height"
      using assms by linarith
    moreover have "1 \<le> unat (imageNumber v) \<longleftrightarrow> 1 \<le> int (unat (imageNumber v))"
      by linarith
    ultimately show ?thesis
      using index_in_range_iff[OF n, of "imageNumber v"] by (simp only: uint_nat)
  qed
  have ok: "(\<exists>px. aggregate width height res = Inr px)
            \<longleftrightarrow> (\<forall>v \<in> set (concat res).
                   1 \<le> uint (imageNumber v) \<and> uint (imageNumber v) \<le> width * height)"
    using write_values_Inr_iff[of "replicate ?n 0" "replicate ?n 0" "concat res"]
    by (simp add: agg idx)
  have err: "aggregate width height res = Inl out_of_bounds
            \<longleftrightarrow> \<not> (\<exists>px. aggregate width height res = Inr px)"
    using write_values_error[of "concat res" "(replicate ?n 0, replicate ?n 0)"]
    by (cases "aggregate width height res") (auto simp: agg)
  have bad: "(\<exists>v \<in> set (concat res).
                uint (imageNumber v) < 1 \<or> width * height < uint (imageNumber v))
            \<longleftrightarrow> \<not> (\<forall>v \<in> set (concat res).
                   1 \<le> uint (imageNumber v) \<and> uint (imageNumber v) \<le> width * height)"
    by (simp only: bex_simps not_le de_Morgan_conj not_all ball_simps)
  show ?thesis
    by (simp only: err ok bad simp_thms)
qed

theorem aggregate_in_bounds_iff_witness:
  "(0::int) < 5 * 1 \<and> (5::int) * 1 < 2 ^ 31
   \<and> (\<exists>px. aggregate 5 1 sample_results = Inr px)
   \<and> map imageNumber (concat sample_results) = [5, 3, 5]
   \<and> aggregate 5 1 sample_results \<noteq> Inl out_of_bounds
   \<and> aggregate 2 2 sample_results = Inl out_of_bounds"
  using aggregate_in_bounds_iff[of 5 1 sample_results] aggregate_in_bounds_iff[of 2 2 sample_results]
  by (simp add: sample_results_def)

text \<open>
  Claim C8. For every stream and whatever else \<^verbatim>\<open>process\<close> is given, the calls that it
  makes are the construction of the pool and then, if the stream has a block, the
  construction of the bright and of the dark mask from the dimensions of the first block,
  followed by the tasks. Each mask is thus built once at most and before the first task is
  submitted, and every task, also one for a block of other dimensions, gets the same two
  masks. This holds as well when the run ends with an error.
\<close>

theorem masks_built_once:
  "\<exists>bs. fst (process env fs s streamId concurrency width height url) =
     NewThreadPool (if concurrency = - 1 then int (hardware_concurrency env) else concurrency)
     # (case bs of
          [] \<Rightarrow> []
        | b # _ \<Rightarrow>
            [CreateAnnularMask (rows (header b)) (columns (header b)) 0 288,
             CreateAnnularMask (rows (header b)) (columns (header b)) 40 288]
            @ map (\<lambda>b'. Enqueue b'
                     (Some (createAnnularMask env (rows (header b)) (columns (header b)) 0 288))
                     (Some (createAnnularMask env (rows (header b)) (columns (header b)) 40 288)))
                bs)"
proof -
  let ?c = "if concurrency = - 1 then int (hardware_concurrency env) else concurrency"
  obtain st r where run: "process_loop env (init_state ?c) s = (st, r)"
    by (cases "process_loop env (init_state ?c) s")
  have none: "brightFieldMask (init_state ?c :: 'a loop_state) = None"
    "darkFieldMask (init_state ?c :: 'a loop_state) = None"
    by (simp_all add: init_state_def)
  show ?thesis
  proof (cases "?c < 0")
    case True
    then have "fst (process env fs s streamId concurrency width height url) = [NewThreadPool ?c]"
      by (simp add: process_def ThreadPool_def Let_def)
    then show ?thesis by (intro exI[of _ "[]"]) simp
  next
    case False
    then have tr: "fst (process env fs s streamId concurrency width height url) = trace st"
      using run by (simp add: process_def ThreadPool_def Let_def split: sum.splits prod.splits)
    from process_loop_masks_null[OF run none] show ?thesis
      by (simp add: tr init_state_def)
  qed
qed

theorem masks_built_once_witness:
  "(\<exists>bs. fst (process sample_env Map.empty two_block_stream 7 (- 1) 5 1 []) =
     NewThreadPool (if (- 1 :: int) = - 1 then int (hardware_concurrency sample_env) else - 1)
     # (case bs of
          [] \<Rightarrow> []
        | b # _ \<Rightarrow>
            [CreateAnnularMask (rows (header b)) (columns (header b)) 0 288,
             CreateAnnularMask (rows (header b)) (columns (header b)) 40 288]
            @ map (\<lambda>b'. Enqueue b'
                     (Some (createAnnularMask sample_env (rows (header b)) (columns (header b)) 0 288))
                     (Some (createAnnularMask sample_env (rows (header b)) (columns (header b)) 40 288)))
                bs))
   \<and> fst (process sample_env Map.empty two_block_stream 7 (- 1) 5 1 []) =
       [NewThreadPool 4,
        CreateAnnularMask 1 2 0 288,
        CreateAnnularMask 1 2 40 288,
        Enqueue sample_block (Some (1, 2, 0, 288)) (Some (1, 2, 40, 288)),
        Enqueue sample_block2 (Some (1, 2, 0, 288)) (Some (1, 2, 40, 288))]
   \<and> (rows (header sample_block2), columns (header sample_block2))
       \<noteq> (rows (header sample_block), columns (header sample_block))"
proof -
  have "fst (process sample_env Map.empty two_block_stream 7 (- 1) 5 1 []) =
       [NewThreadPool 4,
        CreateAnnularMask 1 2 0 288,
        CreateAnnularMask 1 2 40 288,
        Enqueue sample_block (Some (1, 2, 0, 288)) (Some (1, 2, 40, 288)),
        Enqueue sample_block2 (Some (1, 2, 0, 288)) (Some (1, 2, 40, 288))]"
    using process_loop_two_block_stream[of 4]
    by (simp add: process_def ThreadPool_def Let_def sample_env_def
             split: sum.splits prod.splits)
  moreover have "(rows (header sample_block2), columns (header sample_block2))
       \<noteq> (rows (header sample_block), columns (header sample_block))"
    by (simp add: sample_block_def sample_block2_def)
  ultimately show ?thesis
    using masks_built_once[of sample_env Map.empty two_block_stream 7 "- 1" 5 1 "[]"]
    by blast
qed








end
